theory Spec2Isabelle
  imports Main "HOL-Library.Multiset" "HOL-Library.Sublist"
begin

section \<open>Route configuration utilities (packages/router/src/utils/config.ts)\<close>

subsection \<open>Data model\<close>

text \<open>
  The collaborators of \<^verbatim>\<open>config.ts\<close> are opaque references, compared by identity only:
  a component class, a matcher function, a lazy-load callback, a guard token and an
  environment injector. \<^verbatim>\<open>EmptyOutletComponent\<close> is the one component the file names.
  All of them are objects or functions, hence truthy whenever they are present.
\<close>

datatype component = EmptyOutletComponent | Component nat
datatype matcher_fn = Matcher nat
datatype load_children = LoadChildren nat
datatype guard = Guard nat
datatype injector = Injector nat
datatype path_match = Prefix | Full

text \<open>
  Modelled from the spec: the \<^verbatim>\<open>Route\<close> interface is declared in \<^verbatim>\<open>../models\<close>, which is not
  part of the sources; its attributes are the ones the specification's data model lists.
  An optional attribute is an \<open>option\<close>: \<open>None\<close> is JavaScript's \<^verbatim>\<open>undefined\<close>. The three
  cache attributes \<^verbatim>\<open>_loadedRoutes\<close>, \<^verbatim>\<open>_loadedInjector\<close> and \<^verbatim>\<open>_injector\<close> are written with the
  prefix \<open>u_\<close>, since an identifier cannot start with an underscore.
\<close>

datatype route = Route
  (path: "string option")
  (matcher: "matcher_fn option")
  (outlet: "string option")
  (component: "component option")
  (redirectTo: "string option")
  (canActivate: "guard list option")
  (children: "route list option")
  (loadChildren: "load_children option")
  (pathMatch: "path_match option")
  (u_loadedRoutes: "route list option")
  (u_loadedInjector: "injector option")
  (u_injector: "injector option")

text \<open>
  Modelled from the spec: \<^verbatim>\<open>ActivatedRouteSnapshot\<close> is declared in \<^verbatim>\<open>../router_state\<close>. Of it
  the file reads the back-reference \<^verbatim>\<open>routeConfig\<close> (a route or \<^verbatim>\<open>null\<close>) and the \<^verbatim>\<open>parent\<close>
  link (a snapshot or \<^verbatim>\<open>null\<close> at the root). Snapshots form a rooted tree, so a parent chain
  is finite, as a value of this datatype is.
\<close>

datatype snapshot = Snapshot
  (routeConfig: "route option")
  (parent: "snapshot option")

text \<open>Modelled from the spec: \<^verbatim>\<open>PRIMARY_OUTLET\<close> is imported from \<^verbatim>\<open>../shared\<close>; it is "primary".\<close>

definition PRIMARY_OUTLET :: string where
  "PRIMARY_OUTLET = ''primary''"

text \<open>
  JavaScript truthiness of an optional string: \<^verbatim>\<open>undefined\<close> and the empty string are
  falsy, every other string is truthy.
\<close>

fun truthy :: "string option \<Rightarrow> bool" where
  "truthy None = False"
| "truthy (Some s) = (s \<noteq> [])"

subsection \<open>Cache accessors\<close>

definition getLoadedRoutes :: "route \<Rightarrow> route list option" where
  "getLoadedRoutes route = u_loadedRoutes route"

definition getLoadedInjector :: "route \<Rightarrow> injector option" where
  "getLoadedInjector route = u_loadedInjector route"

definition getProvidersInjector :: "route \<Rightarrow> injector option" where
  "getProvidersInjector route = u_injector route"

subsection \<open>Outlets\<close>

text \<open>\<^verbatim>\<open>return route.outlet || PRIMARY_OUTLET;\<close>\<close>

definition getOutlet :: "route \<Rightarrow> string" where
  "getOutlet route =
     (case outlet route of
        None \<Rightarrow> PRIMARY_OUTLET
      | Some s \<Rightarrow> if s \<noteq> [] then s else PRIMARY_OUTLET)"

text \<open>
  \<^verbatim>\<open>routes.filter(...)\<close> builds the array of the matching routes, and \<^verbatim>\<open>push(...)\<close> appends
  the second filter's result to it.
\<close>

definition sortByMatchingOutlets :: "route list \<Rightarrow> string \<Rightarrow> route list" where
  "sortByMatchingOutlets routes outletName =
     (let sortedConfig = filter (\<lambda>r. getOutlet r = outletName) routes
      in sortedConfig @ filter (\<lambda>r. getOutlet r \<noteq> outletName) routes)"

subsection \<open>Validation\<close>

text \<open>
  Every \<^verbatim>\<open>throw new Error(...)\<close> of \<^verbatim>\<open>validateNode\<close> is a value \<open>ConfigError fullPath reason\<close>:
  the full path the message quotes, and a tag for the text of the message, one tag for
  each \<^verbatim>\<open>throw\<close> in the order of the source.
\<close>

datatype reason =
    NamedOutletWithoutContent
  | RedirectToAndChildren
  | RedirectToAndLoadChildren
  | ChildrenAndLoadChildren
  | RedirectToAndComponent
  | RedirectToAndCanActivate
  | PathAndMatcher
  | NothingProvided
  | NoPathNorMatcher
  | PathStartsWithSlash
  | PathMatchMissing

datatype error = ConfigError string reason

text \<open>
  The global \<^verbatim>\<open>ngDevMode\<close> is a parameter: \<open>None\<close> when it is not declared
  (\<^verbatim>\<open>typeof ngDevMode === 'undefined'\<close>), \<open>Some b\<close> when it is declared with truthiness \<open>b\<close>.
\<close>

definition devModeEnabled :: "bool option \<Rightarrow> bool" where
  "devModeEnabled ngDevMode = (case ngDevMode of None \<Rightarrow> True | Some b \<Rightarrow> b)"

text \<open>
  A value of type \<open>route\<close> is an object, so the first branch of \<^verbatim>\<open>getFullPath\<close>
  (\<^verbatim>\<open>!currentRoute\<close>) is never taken.
\<close>

definition getFullPath :: "string \<Rightarrow> route \<Rightarrow> string" where
  "getFullPath parentPath currentRoute =
     (if parentPath = [] \<and> \<not> truthy (path currentRoute) then []
      else if parentPath \<noteq> [] \<and> \<not> truthy (path currentRoute) then parentPath @ ''/''
      else if parentPath = [] \<and> truthy (path currentRoute) then the (path currentRoute)
      else parentPath @ ''/'' @ the (path currentRoute))"

text \<open>
  The checks inside \<^verbatim>\<open>if (typeof ngDevMode === 'undefined' || ngDevMode) { ... }\<close>, in the order
  of the source: the result names the first \<^verbatim>\<open>throw\<close> that is reached, or is \<open>None\<close> when no
  check throws. The first two checks of the source (\<^verbatim>\<open>!route\<close> and \<^verbatim>\<open>Array.isArray(route)\<close>)
  reject values that are not of type \<^verbatim>\<open>Route\<close>; no value of the type \<open>route\<close> takes them.
\<close>

definition failedCheck :: "route \<Rightarrow> reason option" where
  "failedCheck route =
     (if component route = None \<and> children route = None \<and> loadChildren route = None \<and>
         (truthy (outlet route) \<and> outlet route \<noteq> Some PRIMARY_OUTLET)
      then Some NamedOutletWithoutContent
      else if truthy (redirectTo route) \<and> children route \<noteq> None
      then Some RedirectToAndChildren
      else if truthy (redirectTo route) \<and> loadChildren route \<noteq> None
      then Some RedirectToAndLoadChildren
      else if children route \<noteq> None \<and> loadChildren route \<noteq> None
      then Some ChildrenAndLoadChildren
      else if truthy (redirectTo route) \<and> component route \<noteq> None
      then Some RedirectToAndComponent
      else if truthy (redirectTo route) \<and> canActivate route \<noteq> None
      then Some RedirectToAndCanActivate
      else if truthy (path route) \<and> matcher route \<noteq> None
      then Some PathAndMatcher
      else if redirectTo route = None \<and> component route = None \<and> children route = None \<and>
              loadChildren route = None
      then Some NothingProvided
      else if path route = None \<and> matcher route = None
      then Some NoPathNorMatcher
      else if (case path route of Some (c # _) \<Rightarrow> c = CHR ''/'' | _ \<Rightarrow> False)
      then Some PathStartsWithSlash
      else if path route = Some [] \<and> redirectTo route \<noteq> None \<and> pathMatch route = None
      then Some PathMatchMissing
      else None)"

lemma size_children [termination_simp]:
  "children r = Some cs \<Longrightarrow> size_list size cs < size r"
  by (cases r) simp

lemma size_child [termination_simp]:
  "children r = Some cs \<Longrightarrow> x \<in> set cs \<Longrightarrow> size x < size r"
proof -
  assume c: "children r = Some cs" and x: "x \<in> set cs"
  have "size x \<le> size_list size cs" using x by (simp add: size_list_estimation')
  also have "\<dots> < size r" using c by (rule size_children)
  finally show ?thesis .
qed

text \<open>
  \<^verbatim>\<open>validateConfig\<close> loops over the array and stops at the first \<^verbatim>\<open>throw\<close>; \<^verbatim>\<open>validateNode\<close> runs
  the checks when the development mode is on, and then descends into the children.
\<close>

fun validateConfig :: "bool option \<Rightarrow> route list \<Rightarrow> string \<Rightarrow> error + unit"
  and validateNode :: "bool option \<Rightarrow> route \<Rightarrow> string \<Rightarrow> error + unit" where
  "validateConfig ngDevMode [] parentPath = Inr ()"
| "validateConfig ngDevMode (route # rest) parentPath =
     (case validateNode ngDevMode route (getFullPath parentPath route) of
        Inl e \<Rightarrow> Inl e
      | Inr _ \<Rightarrow> validateConfig ngDevMode rest parentPath)"
| "validateNode ngDevMode route fullPath =
     (case (if devModeEnabled ngDevMode then failedCheck route else None) of
        Some reason \<Rightarrow> Inl (ConfigError fullPath reason)
      | None \<Rightarrow>
          (case children route of
             Some cs \<Rightarrow> validateConfig ngDevMode cs fullPath
           | None \<Rightarrow> Inr ()))"

subsection \<open>Normalisation\<close>

text \<open>
  \<^verbatim>\<open>r.children && r.children.map(standardizeConfig)\<close> is \<^verbatim>\<open>undefined\<close> when the route has no
  children and the array of the normalised children otherwise (an array is truthy, the
  empty one too). The copy \<^verbatim>\<open>{...r, children}\<close> or \<^verbatim>\<open>{...r}\<close> has every attribute of \<open>r\<close>, with
  \<^verbatim>\<open>children\<close> replaced in the first case.
\<close>

fun standardizeConfig :: "route \<Rightarrow> route" where
  "standardizeConfig (Route pa ma ou co re ca ch lc pm lr li si) =
     (let children' = map_option (map standardizeConfig) ch;
          c = (case children' of
                 Some cs \<Rightarrow> Route pa ma ou co re ca (Some cs) lc pm lr li si
               | None \<Rightarrow> Route pa ma ou co re ca ch lc pm lr li si)
      in if component c = None \<and> (children' \<noteq> None \<or> loadChildren c \<noteq> None) \<and>
            (truthy (outlet c) \<and> outlet c \<noteq> Some PRIMARY_OUTLET)
         then Route (path c) (matcher c) (outlet c) (Some EmptyOutletComponent) (redirectTo c)
                (canActivate c) (children c) (loadChildren c) (pathMatch c)
                (u_loadedRoutes c) (u_loadedInjector c) (u_injector c)
         else c)"

subsection \<open>Injector resolution\<close>

text \<open>
  The loop \<^verbatim>\<open>for (let s = snapshot.parent; s; s = s.parent)\<close>: at each ancestor the lazy-loaded
  injector is looked at first, then the one of the static providers. \<^verbatim>\<open>route?._loadedInjector\<close>
  is \<^verbatim>\<open>undefined\<close> when the ancestor has no \<^verbatim>\<open>routeConfig\<close>.
\<close>

fun closestFromParents :: "snapshot option \<Rightarrow> injector option" where
  "closestFromParents None = None"
| "closestFromParents (Some (Snapshot route p)) =
     (case route of
        None \<Rightarrow> closestFromParents p
      | Some r \<Rightarrow>
          (case u_loadedInjector r of
             Some i \<Rightarrow> Some i
           | None \<Rightarrow>
               (case u_injector r of
                  Some i \<Rightarrow> Some i
                | None \<Rightarrow> closestFromParents p)))"

text \<open>The argument is \<open>None\<close> for an absent snapshot; the result \<open>None\<close> is \<^verbatim>\<open>null\<close>.\<close>

fun getClosestRouteInjector :: "snapshot option \<Rightarrow> injector option" where
  "getClosestRouteInjector None = None"
| "getClosestRouteInjector (Some snapshot) =
     (case (case routeConfig snapshot of None \<Rightarrow> None | Some r \<Rightarrow> u_injector r) of
        Some i \<Rightarrow> Some i
      | None \<Rightarrow> closestFromParents (parent snapshot))"

subsection \<open>Normalisation with an explicit store\<close>

text \<open>
  \<^verbatim>\<open>standardizeConfig\<close> allocates: \<^verbatim>\<open>map\<close> builds a new array and the spread \<^verbatim>\<open>{...r}\<close> a new
  object, and \<^verbatim>\<open>c.component = ...\<close> writes to that new object. To state what is new and
  what is left alone, the same function is modelled a second time over a store of objects.
  A store is the list of its cells, an address is an index into it, and allocation appends a
  cell. A route object holds its attributes; \<^verbatim>\<open>children\<close> and \<^verbatim>\<open>_loadedRoutes\<close> are references
  to arrays, an array is the list of the addresses of its elements. The attribute names
  carry the prefix \<open>o_\<close>.
\<close>

type_synonym addr = nat

record route_object =
  o_path :: "string option"
  o_matcher :: "matcher_fn option"
  o_outlet :: "string option"
  o_component :: "component option"
  o_redirectTo :: "string option"
  o_canActivate :: "guard list option"
  o_children :: "addr option"
  o_loadChildren :: "load_children option"
  o_pathMatch :: "path_match option"
  o_loadedRoutes :: "addr option"
  o_loadedInjector :: "injector option"
  o_injector :: "injector option"

datatype cell = RouteObject route_object | ArrayObject "addr list"

type_synonym heap = "cell list"

text \<open>
  Reading the object at an address: \<open>None\<close> when the address is not allocated or holds a
  cell of the other kind (a reference that is not well-typed).
\<close>

definition readRoute :: "heap \<Rightarrow> addr \<Rightarrow> route_object option" where
  "readRoute h a =
     (if a < length h then (case h ! a of RouteObject r \<Rightarrow> Some r | ArrayObject _ \<Rightarrow> None)
      else None)"

definition readArray :: "heap \<Rightarrow> addr \<Rightarrow> addr list option" where
  "readArray h a =
     (if a < length h then (case h ! a of ArrayObject es \<Rightarrow> Some es | RouteObject _ \<Rightarrow> None)
      else None)"

definition alloc :: "heap \<Rightarrow> cell \<Rightarrow> heap \<times> addr" where
  "alloc h c = (h @ [c], length h)"

text \<open>
  The last statement of \<^verbatim>\<open>standardizeConfig\<close>, on the copy \<open>c\<close>: the first argument is the
  truthiness of the local \<^verbatim>\<open>children\<close>. The assignment \<^verbatim>\<open>c.component = EmptyOutletComponent\<close>
  updates the cell of \<open>c\<close> in place.
\<close>

definition placeholderIfNeeded :: "bool \<Rightarrow> heap \<Rightarrow> addr \<Rightarrow> (heap \<times> addr) option" where
  "placeholderIfNeeded hasChildren h c =
     (case readRoute h c of
        None \<Rightarrow> None
      | Some co \<Rightarrow>
          if o_component co = None \<and> (hasChildren \<or> o_loadChildren co \<noteq> None) \<and>
             (truthy (o_outlet co) \<and> o_outlet co \<noteq> Some PRIMARY_OUTLET)
          then Some (h[c := RouteObject (co\<lparr>o_component := Some EmptyOutletComponent\<rparr>)], c)
          else Some (h, c))"

text \<open>
  The recursion follows references, so it is bounded by fuel: \<open>None\<close> is a call that runs
  out of fuel or meets a reference that is not well-typed. \<open>mapStandardizeConfigH\<close> is
  \<^verbatim>\<open>r.children.map(standardizeConfig)\<close>, element by element, threading the store. The
  attributes of \<open>r\<close> are read for the spread after the children have been normalised, as
  in the source. The new array is allocated once its elements are known; an address is not
  a value the source can observe, so only the distinctness of the new addresses matters.
\<close>

fun standardizeConfigH :: "nat \<Rightarrow> heap \<Rightarrow> addr \<Rightarrow> (heap \<times> addr) option"
  and mapStandardizeConfigH :: "nat \<Rightarrow> heap \<Rightarrow> addr list \<Rightarrow> (heap \<times> addr list) option" where
  "standardizeConfigH 0 h r = None"
| "standardizeConfigH (Suc fuel) h r =
     (case readRoute h r of
        None \<Rightarrow> None
      | Some ro \<Rightarrow>
          (case o_children ro of
             None \<Rightarrow>
               (let (h1, c) = alloc h (RouteObject ro)
                in placeholderIfNeeded False h1 c)
           | Some arr \<Rightarrow>
               (case readArray h arr of
                  None \<Rightarrow> None
                | Some es \<Rightarrow>
                    (case mapStandardizeConfigH fuel h es of
                       None \<Rightarrow> None
                     | Some (h1, es') \<Rightarrow>
                         (let (h2, children) = alloc h1 (ArrayObject es')
                          in case readRoute h2 r of
                               None \<Rightarrow> None
                             | Some ro' \<Rightarrow>
                                 (let (h3, c) =
                                    alloc h2 (RouteObject (ro'\<lparr>o_children := Some children\<rparr>))
                                  in placeholderIfNeeded True h3 c))))))"
| "mapStandardizeConfigH fuel h [] = Some (h, [])"
| "mapStandardizeConfigH fuel h (e # es) =
     (case standardizeConfigH fuel h e of
        None \<Rightarrow> None
      | Some (h1, e') \<Rightarrow>
          (case mapStandardizeConfigH fuel h1 es of
             None \<Rightarrow> None
           | Some (h2, es') \<Rightarrow> Some (h2, e' # es')))"

subsection \<open>Vocabulary of the properties\<close>

text \<open>The ancestors of a snapshot along the \<^verbatim>\<open>parent\<close> links, the nearest first.\<close>

fun ancestors :: "snapshot \<Rightarrow> snapshot list" where
  "ancestors (Snapshot route None) = []"
| "ancestors (Snapshot route (Some p)) = p # ancestors p"

text \<open>A snapshot carries an injector when its route has a lazy-loaded or a static one.\<close>

definition carriesInjector :: "snapshot \<Rightarrow> bool" where
  "carriesInjector s =
     (case routeConfig s of
        None \<Rightarrow> False
      | Some r \<Rightarrow> u_loadedInjector r \<noteq> None \<or> u_injector r \<noteq> None)"

text \<open>The static-providers injector of the snapshot's own route, if any.\<close>

definition staticInjector :: "snapshot \<Rightarrow> injector option" where
  "staticInjector s = (case routeConfig s of None \<Rightarrow> None | Some r \<Rightarrow> u_injector r)"

text \<open>
  The resolved outlet in the words of the specification (the route's outlet, "primary"
  when it is unset), and the stable partition by it; for comparison with \<open>getOutlet\<close> and
  \<open>sortByMatchingOutlets\<close>.
\<close>

definition statedOutlet :: "route \<Rightarrow> string" where
  "statedOutlet route = (case outlet route of None \<Rightarrow> ''primary'' | Some s \<Rightarrow> s)"

definition statedPartition :: "route list \<Rightarrow> string \<Rightarrow> route list" where
  "statedPartition routes outletName =
     filter (\<lambda>r. statedOutlet r = outletName) routes @
     filter (\<lambda>r. statedOutlet r \<noteq> outletName) routes"

text \<open>The nodes of a route tree: a route, then the nodes below each of its children.\<close>

fun allNodes :: "route \<Rightarrow> route list" where
  "allNodes r = r # (case children r of None \<Rightarrow> [] | Some cs \<Rightarrow> concat (map allNodes cs))"

definition treeNodes :: "route list \<Rightarrow> route list" where
  "treeNodes config = concat (map allNodes config)"

text \<open>The depth of a route tree; it bounds the fuel \<open>standardizeConfigH\<close> needs.\<close>

fun depth :: "route \<Rightarrow> nat" where
  "depth r = Suc (case children r of None \<Rightarrow> 0 | Some cs \<Rightarrow> foldr max (map depth cs) 0)"

declare depth.simps [simp del]

text \<open>
  \<open>represents h a r\<close>: in the store \<open>h\<close>, the object at address \<open>a\<close> is the route tree \<open>r\<close>:
  its attributes are those of \<open>r\<close>, and its arrays of children and of loaded routes
  hold the addresses of objects that are the corresponding trees.
\<close>

inductive represents :: "heap \<Rightarrow> addr \<Rightarrow> route \<Rightarrow> bool"
  and representsAll :: "heap \<Rightarrow> addr option \<Rightarrow> route list option \<Rightarrow> bool" where
  "readRoute h a = Some ro \<Longrightarrow>
   o_path ro = pa \<Longrightarrow> o_matcher ro = ma \<Longrightarrow> o_outlet ro = ou \<Longrightarrow> o_component ro = co \<Longrightarrow>
   o_redirectTo ro = re \<Longrightarrow> o_canActivate ro = ca \<Longrightarrow> o_loadChildren ro = lc \<Longrightarrow>
   o_pathMatch ro = pm \<Longrightarrow> o_loadedInjector ro = li \<Longrightarrow> o_injector ro = si \<Longrightarrow>
   representsAll h (o_children ro) ch \<Longrightarrow> representsAll h (o_loadedRoutes ro) lr \<Longrightarrow>
   represents h a (Route pa ma ou co re ca ch lc pm lr li si)"
| "representsAll h None None"
| "readArray h arr = Some es \<Longrightarrow> list_all2 (represents h) es cs \<Longrightarrow>
   representsAll h (Some arr) (Some cs)"

inductive_simps represents_Route: "represents h a (Route pa ma ou co re ca ch lc pm lr li si)"
inductive_simps representsAll_None: "representsAll h x None"
inductive_simps representsAll_Some: "representsAll h x (Some cs)"

text \<open>The condition under which the copy receives the placeholder component.\<close>

definition needsPlaceholder :: "bool \<Rightarrow> route_object \<Rightarrow> bool" where
  "needsPlaceholder hasChildren co \<longleftrightarrow>
     o_component co = None \<and> (hasChildren \<or> o_loadChildren co \<noteq> None) \<and>
     (truthy (o_outlet co) \<and> o_outlet co \<noteq> Some PRIMARY_OUTLET)"

text \<open>Two route objects agree on every attribute but \<^verbatim>\<open>component\<close> and \<^verbatim>\<open>children\<close>.\<close>

definition sameOtherFields :: "route_object \<Rightarrow> route_object \<Rightarrow> bool" where
  "sameOtherFields ro co \<longleftrightarrow>
     o_path co = o_path ro \<and> o_matcher co = o_matcher ro \<and> o_outlet co = o_outlet ro \<and>
     o_redirectTo co = o_redirectTo ro \<and> o_canActivate co = o_canActivate ro \<and>
     o_loadChildren co = o_loadChildren ro \<and> o_pathMatch co = o_pathMatch ro \<and>
     o_loadedRoutes co = o_loadedRoutes ro \<and> o_loadedInjector co = o_loadedInjector ro \<and>
     o_injector co = o_injector ro"

declare allNodes.simps [simp del]
declare validateNode.simps [simp del]

subsection \<open>Example inputs\<close>

text \<open>
  \<open>route0\<close> is the empty object literal \<^verbatim>\<open>{}\<close>; the examples below set attributes of it.
\<close>

definition route0 :: route where
  "route0 = Route None None None None None None None None None None None None"

definition auxRoute :: "string \<Rightarrow> route" where
  "auxRoute p = Route (Some p) None (Some ''aux'') None None None None None None None None None"

text \<open>\<^verbatim>\<open>{outlet: ''}\<close>: the outlet is set, to the empty string.\<close>

definition blankOutletRoute :: route where
  "blankOutletRoute = Route None None (Some []) None None None None None None None None None"

text \<open>A lazy route that has both injectors, one with the static injector only, one with none.\<close>

definition lazyRoute :: route where
  "lazyRoute = Route (Some ''lazy'') None None None None None None (Some (LoadChildren 1)) None
     None (Some (Injector 1)) (Some (Injector 2))"

definition providersRoute :: route where
  "providersRoute = Route (Some ''prov'') None None (Some (Component 1)) None None None None None
     None None (Some (Injector 3))"

definition plainRoute :: route where
  "plainRoute = Route (Some ''plain'') None None (Some (Component 2)) None None None None None
     None None None"

definition lazySnapshot :: snapshot where
  "lazySnapshot = Snapshot (Some lazyRoute) None"

definition belowLazy :: snapshot where
  "belowLazy = Snapshot (Some plainRoute) (Some (Snapshot None (Some lazySnapshot)))"

definition belowProviders :: snapshot where
  "belowProviders = Snapshot (Some plainRoute) (Some (Snapshot (Some providersRoute) None))"

text \<open>\<^verbatim>\<open>{path: 'a', children: [], outlet: ''}\<close>: the outlet is set, to the empty string.\<close>

definition emptyOutletParent :: route where
  "emptyOutletParent = Route (Some ''a'') None (Some []) None None None (Some []) None None
     None None None"

definition auxParent :: route where
  "auxParent = Route (Some ''a'') None (Some ''aux'') None None None (Some [plainRoute]) None None
     None None None"

text \<open>Routes for the validator: attributes that must not be combined, or that are missing.\<close>

definition pathAndMatcher :: "string \<Rightarrow> route" where
  "pathAndMatcher p = Route (Some p) (Some (Matcher 1)) None (Some (Component 1)) None None None
     None None None None None"

definition noPathNoMatcher :: route where
  "noPathNoMatcher = Route None None None (Some (Component 1)) None None None
     None None None None None"

definition emptyOutletRedirect :: route where
  "emptyOutletRedirect = Route (Some ''a'') None (Some []) None (Some ''b'') None None None None
     None None None"

definition redirectWith ::
  "string \<Rightarrow> component option \<Rightarrow> guard list option \<Rightarrow> route list option \<Rightarrow>
   load_children option \<Rightarrow> route" where
  "redirectWith target co ca ch lc = Route (Some ''a'') None None co (Some target) ca ch lc None
     None None None"

definition emptyPathRedirect :: "path_match option \<Rightarrow> route" where
  "emptyPathRedirect pm = Route (Some []) None None None (Some ''home'') None None None pm
     None None None"

definition parentOf :: "route list \<Rightarrow> route" where
  "parentOf cs = Route (Some ''p'') None None None None None (Some cs) None None None None None"

text \<open>
  A store that holds the tree \<open>auxParent\<close>: the child at address 0, the array of the
  children at address 1, the parent at address 2.
\<close>

definition plainObject :: route_object where
  "plainObject = \<lparr>o_path = Some ''plain'', o_matcher = None, o_outlet = None,
     o_component = Some (Component 2), o_redirectTo = None, o_canActivate = None,
     o_children = None, o_loadChildren = None, o_pathMatch = None, o_loadedRoutes = None,
     o_loadedInjector = None, o_injector = None\<rparr>"

definition auxParentObject :: "addr \<Rightarrow> route_object" where
  "auxParentObject kids = \<lparr>o_path = Some ''a'', o_matcher = None, o_outlet = Some ''aux'',
     o_component = None, o_redirectTo = None, o_canActivate = None,
     o_children = Some kids, o_loadChildren = None, o_pathMatch = None, o_loadedRoutes = None,
     o_loadedInjector = None, o_injector = None\<rparr>"

definition auxParentHeap :: heap where
  "auxParentHeap = [RouteObject plainObject, ArrayObject [0], RouteObject (auxParentObject 1)]"

text \<open>A snapshot with two ancestors, none of which carries an injector.\<close>

definition orphanSnapshot :: snapshot where
  "orphanSnapshot = Snapshot (Some plainRoute) (Some (Snapshot None (Some (Snapshot (Some plainRoute) None))))"

section \<open>Properties\<close>

subsection \<open>Injector resolution\<close>

lemma closestFromParents_step:
  "\<not> carriesInjector x \<Longrightarrow> closestFromParents (Some x) = closestFromParents (parent x)"
  by (cases x) (auto simp: carriesInjector_def split: option.splits)

lemma closestFromParents_skip:
  "ancestors c = pre @ a # post \<Longrightarrow> \<forall>x \<in> set pre. \<not> carriesInjector x \<Longrightarrow>
   closestFromParents (parent c) = closestFromParents (Some a)"
proof (induction pre arbitrary: c)
  case Nil
  then show ?case by (cases c rule: ancestors.cases) auto
next
  case (Cons x pre)
  then obtain rc where c: "c = Snapshot rc (Some x)" and anc: "ancestors x = pre @ a # post"
    by (cases c rule: ancestors.cases) auto
  have "closestFromParents (Some x) = closestFromParents (parent x)"
    using Cons.prems(2) by (simp add: closestFromParents_step)
  also have "\<dots> = closestFromParents (Some a)"
    using Cons.IH[OF anc] Cons.prems(2) by simp
  finally show ?case using c by simp
qed

lemma closestFromParents_none:
  "\<forall>x \<in> set (ancestors c). \<not> carriesInjector x \<Longrightarrow> closestFromParents (parent c) = None"
proof (induction c rule: ancestors.induct)
  case (1 route)
  then show ?case by simp
next
  case (2 route p)
  have "closestFromParents (Some p) = closestFromParents (parent p)"
    using "2.prems" by (simp add: closestFromParents_step)
  then show ?case using 2 by simp
qed

text \<open>
  C1. A snapshot whose own route carries a static-providers injector resolves to that
  injector, whatever lazy-loaded injector the same route carries. A snapshot whose own
  route carries no static injector resolves to the nearest ancestor that carries any
  injector (every ancestor before it carries none): to that ancestor's lazy-loaded
  injector when it has one, also when it has a static one as well, and to its static
  injector when it has no lazy-loaded one.
\<close>

theorem getClosestRouteInjector_own_static_then_nearest_lazy_first:
  "(routeConfig s = Some r \<and> u_injector r = Some i \<longrightarrow>
      getClosestRouteInjector (Some s) = Some i) \<and>
   (staticInjector c = None \<and> ancestors c = pre @ a # post \<and>
    (\<forall>x \<in> set pre. \<not> carriesInjector x) \<and> routeConfig a = Some ra \<longrightarrow>
      (u_loadedInjector ra = Some l \<longrightarrow> getClosestRouteInjector (Some c) = Some l) \<and>
      (u_loadedInjector ra = None \<and> u_injector ra = Some j \<longrightarrow>
         getClosestRouteInjector (Some c) = Some j))"
proof (intro conjI impI)
  assume "routeConfig s = Some r \<and> u_injector r = Some i"
  then show "getClosestRouteInjector (Some s) = Some i" by simp
next
  assume h: "staticInjector c = None \<and> ancestors c = pre @ a # post \<and>
    (\<forall>x \<in> set pre. \<not> carriesInjector x) \<and> routeConfig a = Some ra"
  then have walk: "getClosestRouteInjector (Some c) = closestFromParents (Some a)"
    using closestFromParents_skip[of c pre a post] by (simp add: staticInjector_def)
  {
    assume "u_loadedInjector ra = Some l"
    then show "getClosestRouteInjector (Some c) = Some l"
      using walk h by (cases a) simp
  }
  {
    assume "u_loadedInjector ra = None \<and> u_injector ra = Some j"
    then show "getClosestRouteInjector (Some c) = Some j"
      using walk h by (cases a) simp
  }
qed

theorem getClosestRouteInjector_own_static_then_nearest_lazy_first_witness:
  "getClosestRouteInjector (Some lazySnapshot) = Some (Injector 2) \<and>
   getClosestRouteInjector (Some belowLazy) = Some (Injector 1) \<and>
   getClosestRouteInjector (Some belowProviders) = Some (Injector 3)"
  using
    getClosestRouteInjector_own_static_then_nearest_lazy_first
      [where s = lazySnapshot and r = lazyRoute and i = "Injector 2" and c = belowLazy
         and pre = "[Snapshot None (Some lazySnapshot)]" and a = lazySnapshot and post = "[]"
         and ra = lazyRoute and l = "Injector 1"]
    getClosestRouteInjector_own_static_then_nearest_lazy_first
      [where s = lazySnapshot and r = lazyRoute and i = "Injector 2" and c = belowProviders
         and pre = "[]" and a = "Snapshot (Some providersRoute) None" and post = "[]"
         and ra = providersRoute and j = "Injector 3"]
  by (simp add: lazySnapshot_def belowLazy_def belowProviders_def lazyRoute_def
      providersRoute_def plainRoute_def staticInjector_def carriesInjector_def)

subsection \<open>Outlets\<close>

text \<open>
  C2, as stated, fails. The source resolves the outlet with \<^verbatim>\<open>route.outlet || PRIMARY_OUTLET\<close>,
  so an outlet set to the empty string resolves to "primary", not to itself. For the name
  "primary" a route with the outlet \<^verbatim>\<open>''\<close> is placed first, before a route that precedes it in the
  input; for the name \<^verbatim>\<open>''\<close> it is not placed first.
\<close>

theorem sortByMatchingOutlets_empty_outlet_counterexample:
  "outlet blankOutletRoute = Some [] \<and> statedOutlet blankOutletRoute = [] \<and>
   sortByMatchingOutlets [auxRoute ''x'', blankOutletRoute] ''primary'' =
     [blankOutletRoute, auxRoute ''x''] \<and>
   statedPartition [auxRoute ''x'', blankOutletRoute] ''primary'' =
     [auxRoute ''x'', blankOutletRoute] \<and>
   sortByMatchingOutlets [auxRoute ''x'', blankOutletRoute] [] =
     [auxRoute ''x'', blankOutletRoute] \<and>
   statedPartition [auxRoute ''x'', blankOutletRoute] [] =
     [blankOutletRoute, auxRoute ''x''] \<and>
   sortByMatchingOutlets [auxRoute ''x'', blankOutletRoute] ''primary'' \<noteq>
     statedPartition [auxRoute ''x'', blankOutletRoute] ''primary''"
  by (simp add: sortByMatchingOutlets_def statedPartition_def statedOutlet_def getOutlet_def
      auxRoute_def blankOutletRoute_def PRIMARY_OUTLET_def)

text \<open>
  C2, amended. The result of \<open>sortByMatchingOutlets\<close> has exactly the elements of the input
  (as a multiset), and it splits into the routes whose resolved outlet is the given name,
  followed by the routes whose resolved outlet is not; each part keeps the order the input
  has. The resolved outlet is \<open>getOutlet\<close>: "primary" when the route's outlet is unset or the
  empty string, and the route's outlet otherwise.
\<close>

theorem sortByMatchingOutlets_stable_partition:
  "(outlet x = None \<or> outlet x = Some [] \<longrightarrow> getOutlet x = ''primary'') \<and>
   (outlet x = Some s \<and> s \<noteq> [] \<longrightarrow> getOutlet x = s) \<and>
   mset (sortByMatchingOutlets routes outletName) = mset routes \<and>
   (\<exists>ms os. sortByMatchingOutlets routes outletName = ms @ os \<and>
      (\<forall>r \<in> set ms. getOutlet r = outletName) \<and>
      (\<forall>r \<in> set os. getOutlet r \<noteq> outletName) \<and>
      subseq ms routes \<and> subseq os routes)"
proof -
  let ?ms = "filter (\<lambda>r. getOutlet r = outletName) routes"
  let ?os = "filter (\<lambda>r. getOutlet r \<noteq> outletName) routes"
  have unset: "outlet x = None \<or> outlet x = Some [] \<longrightarrow> getOutlet x = ''primary''"
    by (auto simp: getOutlet_def PRIMARY_OUTLET_def)
  have named: "outlet x = Some s \<and> s \<noteq> [] \<longrightarrow> getOutlet x = s"
    by (simp add: getOutlet_def)
  have "sortByMatchingOutlets routes outletName = ?ms @ ?os"
    by (simp add: sortByMatchingOutlets_def)
  moreover have "\<forall>r \<in> set ?ms. getOutlet r = outletName" by simp
  moreover have "\<forall>r \<in> set ?os. getOutlet r \<noteq> outletName" by simp
  moreover have "subseq ?ms routes" "subseq ?os routes" by simp_all
  ultimately have part: "\<exists>ms os. sortByMatchingOutlets routes outletName = ms @ os \<and>
      (\<forall>r \<in> set ms. getOutlet r = outletName) \<and>
      (\<forall>r \<in> set os. getOutlet r \<noteq> outletName) \<and>
      subseq ms routes \<and> subseq os routes" by blast
  have same: "mset (sortByMatchingOutlets routes outletName) = mset routes"
    by (simp add: sortByMatchingOutlets_def)
  from unset named same part show ?thesis by (intro conjI)
qed

theorem sortByMatchingOutlets_stable_partition_witness:
  "outlet route0 = None \<and> getOutlet route0 = ''primary'' \<and>
   outlet blankOutletRoute = Some [] \<and> getOutlet blankOutletRoute = ''primary'' \<and>
   outlet (auxRoute ''x'') = Some ''aux'' \<and> getOutlet (auxRoute ''x'') = ''aux'' \<and>
   mset (sortByMatchingOutlets [auxRoute ''x'', route0, auxRoute ''y''] ''aux'') =
     mset [auxRoute ''x'', route0, auxRoute ''y''] \<and>
   sortByMatchingOutlets [auxRoute ''x'', route0, auxRoute ''y''] ''aux'' =
     [auxRoute ''x'', auxRoute ''y'', route0] \<and>
   sortByMatchingOutlets [auxRoute ''x'', blankOutletRoute, route0] ''primary'' =
     [blankOutletRoute, route0, auxRoute ''x'']"
proof -
  have o: "outlet route0 = None" "outlet blankOutletRoute = Some []"
    "outlet (auxRoute ''x'') = Some ''aux''"
    by (simp_all add: route0_def blankOutletRoute_def auxRoute_def)
  have v: "sortByMatchingOutlets [auxRoute ''x'', route0, auxRoute ''y''] ''aux'' =
     [auxRoute ''x'', auxRoute ''y'', route0]"
    "sortByMatchingOutlets [auxRoute ''x'', blankOutletRoute, route0] ''primary'' =
     [blankOutletRoute, route0, auxRoute ''x'']"
    by (simp_all add: sortByMatchingOutlets_def getOutlet_def auxRoute_def route0_def
        blankOutletRoute_def PRIMARY_OUTLET_def)
  show ?thesis
    using sortByMatchingOutlets_stable_partition[of route0 "''aux''" "[auxRoute ''x'', route0, auxRoute ''y'']" "''aux''"]
      sortByMatchingOutlets_stable_partition[of blankOutletRoute "''aux''" "[auxRoute ''x'', blankOutletRoute, route0]" "''primary''"]
      sortByMatchingOutlets_stable_partition[of "auxRoute ''x''" "''aux''" "[]" "[]"] o v
    by simp
qed

subsection \<open>Normalisation\<close>

lemma truthy_iff: "truthy x \<longleftrightarrow> (\<exists>s. x = Some s \<and> s \<noteq> [])"
  by (cases x) auto

text \<open>
  C3. \<open>standardizeConfig\<close> is idempotent: normalising a normalised route changes nothing.
\<close>

theorem standardizeConfig_idempotent:
  "standardizeConfig (standardizeConfig r) = standardizeConfig r"
proof (induction r rule: standardizeConfig.induct)
  case (1 pa ma ou co re ca ch lc pm lr li si)
  show ?case
  proof (cases ch)
    case None
    then show ?thesis by (simp add: Let_def)
  next
    case (Some cs)
    have "map standardizeConfig (map standardizeConfig cs) = map standardizeConfig cs"
      using "1.IH" Some by simp
    then show ?thesis using Some by (simp add: Let_def)
  qed
qed

text \<open>
  C4, as stated, fails: a route without component, with children, whose outlet is set to
  the empty string (set, and not "primary") keeps its component unset, because the
  source tests the outlet for truthiness.
\<close>

theorem standardizeConfig_empty_outlet_counterexample:
  "component emptyOutletParent = None \<and> children emptyOutletParent \<noteq> None \<and>
   outlet emptyOutletParent = Some [] \<and> outlet emptyOutletParent \<noteq> Some PRIMARY_OUTLET \<and>
   component (standardizeConfig emptyOutletParent) \<noteq> Some EmptyOutletComponent"
  by (simp add: emptyOutletParent_def PRIMARY_OUTLET_def)

text \<open>
  C4, amended. For a route with no component that has children or a lazy-load
  descriptor: when its outlet is a non-empty name other than "primary", the normalised
  copy's component is the empty-outlet placeholder; when its outlet is unset, "primary"
  or the empty string, the copy's component stays unset.
\<close>

theorem standardizeConfig_placeholder:
  assumes "component r = None" and "children r \<noteq> None \<or> loadChildren r \<noteq> None"
  shows "(\<forall>s. outlet r = Some s \<and> s \<noteq> [] \<and> s \<noteq> PRIMARY_OUTLET \<longrightarrow>
            component (standardizeConfig r) = Some EmptyOutletComponent) \<and>
         (outlet r = None \<or> outlet r = Some PRIMARY_OUTLET \<or> outlet r = Some [] \<longrightarrow>
            component (standardizeConfig r) = None)"
  using assms
  by (cases r) (auto simp: Let_def truthy_iff PRIMARY_OUTLET_def split: option.splits)

theorem standardizeConfig_placeholder_witness:
  "component auxParent = None \<and> children auxParent \<noteq> None \<and>
   outlet auxParent = Some ''aux'' \<and>
   component (standardizeConfig auxParent) = Some EmptyOutletComponent \<and>
   component emptyOutletParent = None \<and> children emptyOutletParent \<noteq> None \<and>
   outlet emptyOutletParent = Some [] \<and>
   component (standardizeConfig emptyOutletParent) = None"
proof -
  have a: "component auxParent = None" "children auxParent \<noteq> None \<or> loadChildren auxParent \<noteq> None"
    by (simp_all add: auxParent_def)
  have e: "component emptyOutletParent = None"
    "children emptyOutletParent \<noteq> None \<or> loadChildren emptyOutletParent \<noteq> None"
    by (simp_all add: emptyOutletParent_def)
  have oa: "outlet auxParent = Some ''aux''" "children auxParent \<noteq> None"
    by (simp_all add: auxParent_def)
  have oe: "outlet emptyOutletParent = Some []" "children emptyOutletParent \<noteq> None"
    by (simp_all add: emptyOutletParent_def)
  show ?thesis
    using standardizeConfig_placeholder[OF a] standardizeConfig_placeholder[OF e] a(1) e(1) oa oe
    by (simp add: PRIMARY_OUTLET_def)
qed

subsection \<open>Validation\<close>

lemma allNodes_cases:
  "r \<in> set (allNodes route) \<Longrightarrow>
     r = route \<or> (\<exists>cs. children route = Some cs \<and> r \<in> set (treeNodes cs))"
  by (cases "children route") (auto simp: allNodes.simps[of route] treeNodes_def)

lemma validate_rejects:
  "devModeEnabled dm \<Longrightarrow> \<exists>r \<in> set (treeNodes config). failedCheck r \<noteq> None \<Longrightarrow>
     isl (validateConfig dm config pp)"
  "devModeEnabled dm \<Longrightarrow> \<exists>r \<in> set (allNodes route). failedCheck r \<noteq> None \<Longrightarrow>
     isl (validateNode dm route fp)"
proof (induction dm config pp and dm route fp rule: validateConfig_validateNode.induct)
  case (1 ngDevMode parentPath)
  then show ?case by (simp add: treeNodes_def)
next
  case (2 ngDevMode route rest parentPath)
  show ?case
  proof (cases "validateNode ngDevMode route (getFullPath parentPath route)")
    case (Inl e)
    then show ?thesis by simp
  next
    case (Inr u)
    have "\<not> isl (validateNode ngDevMode route (getFullPath parentPath route))"
      using Inr by simp
    then have "\<not> (\<exists>r \<in> set (allNodes route). failedCheck r \<noteq> None)"
      using "2.IH"(1)[OF "2.prems"(1)] by blast
    then have "\<exists>r \<in> set (treeNodes rest). failedCheck r \<noteq> None"
      using "2.prems"(2) by (auto simp: treeNodes_def)
    then have "isl (validateConfig ngDevMode rest parentPath)"
      using "2.IH"(2)[OF Inr "2.prems"(1)] by simp
    then show ?thesis using Inr by simp
  qed
next
  case (3 ngDevMode route fullPath)
  show ?case
  proof (cases "failedCheck route")
    case (Some e)
    then show ?thesis using "3.prems"(1) by (simp add: validateNode.simps)
  next
    case None
    from "3.prems"(2) obtain r where r: "r \<in> set (allNodes route)" "failedCheck r \<noteq> None"
      by blast
    with None have "r \<noteq> route" by auto
    with r obtain cs where cs: "children route = Some cs" "r \<in> set (treeNodes cs)"
      using allNodes_cases by blast
    have "isl (validateConfig ngDevMode cs fullPath)"
      using "3.IH"[of cs] None cs r "3.prems"(1) by auto
    then show ?thesis using None cs "3.prems"(1) by (simp add: validateNode.simps)
  qed
qed

lemma validateConfig_fails_if_node_rejected:
  assumes "devModeEnabled dm" and "r \<in> set (treeNodes config)" and "failedCheck r \<noteq> None"
  shows "\<exists>e. validateConfig dm config pp = Inl e"
proof -
  have "isl (validateConfig dm config pp)"
    using validate_rejects(1)[of dm config pp] assms by blast
  then show ?thesis by (cases "validateConfig dm config pp") auto
qed

text \<open>Every error comes from a check on a node of the tree.\<close>

lemma validate_error_origin:
  "validateConfig dm config pp = Inl (ConfigError p rs) \<Longrightarrow>
     \<exists>r \<in> set (treeNodes config). failedCheck r = Some rs"
  "validateNode dm route fp = Inl (ConfigError p rs) \<Longrightarrow>
     \<exists>r \<in> set (allNodes route). failedCheck r = Some rs"
proof (induction dm config pp and dm route fp rule: validateConfig_validateNode.induct)
  case (1 ngDevMode parentPath)
  then show ?case by simp
next
  case (2 ngDevMode route rest parentPath)
  show ?case
  proof (cases "validateNode ngDevMode route (getFullPath parentPath route)")
    case (Inl e)
    then have "validateNode ngDevMode route (getFullPath parentPath route) = Inl (ConfigError p rs)"
      using "2.prems" by simp
    then show ?thesis using "2.IH"(1) by (auto simp: treeNodes_def)
  next
    case (Inr u)
    then have "validateConfig ngDevMode rest parentPath = Inl (ConfigError p rs)"
      using "2.prems" by simp
    then show ?thesis using "2.IH"(2)[OF Inr] by (auto simp: treeNodes_def)
  qed
next
  case (3 ngDevMode route fullPath)
  let ?here = "if devModeEnabled ngDevMode then failedCheck route else None"
  show ?case
  proof (cases ?here)
    case (Some e)
    then have "e = rs" using "3.prems" by (simp add: validateNode.simps)
    then have "failedCheck route = Some rs"
      using Some by (simp split: if_splits)
    then show ?thesis by (auto simp: allNodes.simps[of route])
  next
    case None
    then obtain cs where cs: "children route = Some cs"
      and v: "validateConfig ngDevMode cs fullPath = Inl (ConfigError p rs)"
      using "3.prems" by (cases "children route") (simp_all add: validateNode.simps)
    have "\<exists>r \<in> set (treeNodes cs). failedCheck r = Some rs"
      using "3.IH"[OF None cs v] .
    then show ?thesis using cs by (auto simp: allNodes.simps[of route] treeNodes_def)
  qed
qed

lemma chainE:
  "(if c then Some x else R) = Some y \<Longrightarrow> (c \<Longrightarrow> x = y \<Longrightarrow> P) \<Longrightarrow> (R = Some y \<Longrightarrow> P) \<Longrightarrow> P"
  by (simp split: if_splits)

lemma pathMatch_origin:
  assumes "failedCheck r = Some PathMatchMissing"
  shows "path r = Some [] \<and> redirectTo r \<noteq> None \<and> pathMatch r = None"
  using assms unfolding failedCheck_def
  apply (elim chainE)
  apply simp_all
  done

lemma rej_path_matcher:
  "truthy (path r) \<Longrightarrow> matcher r \<noteq> None \<Longrightarrow> failedCheck r \<noteq> None"
  unfolding failedCheck_def by simp

lemma rej_no_path_matcher:
  "path r = None \<Longrightarrow> matcher r = None \<Longrightarrow> failedCheck r \<noteq> None"
  unfolding failedCheck_def by simp

lemma rej_named_outlet:
  "component r = None \<Longrightarrow> children r = None \<Longrightarrow> loadChildren r = None \<Longrightarrow>
   truthy (outlet r) \<Longrightarrow> outlet r \<noteq> Some PRIMARY_OUTLET \<Longrightarrow> failedCheck r \<noteq> None"
  unfolding failedCheck_def by simp

lemma rej_redirect:
  "truthy (redirectTo r) \<Longrightarrow>
   children r \<noteq> None \<or> loadChildren r \<noteq> None \<or> component r \<noteq> None \<or> canActivate r \<noteq> None \<Longrightarrow>
   failedCheck r \<noteq> None"
  unfolding failedCheck_def by auto

lemma rej_pathMatch:
  "path r = Some [] \<Longrightarrow> redirectTo r \<noteq> None \<Longrightarrow> pathMatch r = None \<Longrightarrow>
   failedCheck r \<noteq> None"
  unfolding failedCheck_def by simp

lemma validateConfig_production: "\<not> devModeEnabled dm \<Longrightarrow> validateConfig dm config pp = Inr ()"
  "\<not> devModeEnabled dm \<Longrightarrow> validateNode dm route fp = Inr ()"
proof (induction dm config pp and dm route fp rule: validateConfig_validateNode.induct)
  case (1 ngDevMode parentPath)
  show ?case by simp
next
  case (2 ngDevMode route rest parentPath)
  then show ?case by simp
next
  case (3 ngDevMode route fullPath)
  then show ?case by (cases "children route") (simp_all add: validateNode.simps)
qed

text \<open>
  C5, as stated, fails. With \<^verbatim>\<open>ngDevMode\<close> declared and falsy no check runs, so a route with
  both a path and a matcher, and a route with neither, pass. With the checks enabled, a
  route whose path is the empty string and that has a matcher passes too: the source
  tests \<^verbatim>\<open>route.path && route.matcher\<close>, and the empty string is falsy.
\<close>

theorem validateConfig_rejects_path_with_matcher_or_neither_counterexample:
  "path (pathAndMatcher ''a'') = Some ''a'' \<and> matcher (pathAndMatcher ''a'') = Some (Matcher 1) \<and>
   validateConfig (Some False) [pathAndMatcher ''a''] [] = Inr () \<and>
   path noPathNoMatcher = None \<and> matcher noPathNoMatcher = None \<and>
   validateConfig (Some False) [noPathNoMatcher] [] = Inr () \<and>
   path (pathAndMatcher []) = Some [] \<and> matcher (pathAndMatcher []) = Some (Matcher 1) \<and>
   validateConfig None [pathAndMatcher []] [] = Inr ()"
  by (simp add: pathAndMatcher_def noPathNoMatcher_def validateNode.simps devModeEnabled_def
      failedCheck_def getFullPath_def)

text \<open>
  C5, amended. When the development-mode checks are enabled (\<^verbatim>\<open>ngDevMode\<close> undeclared or
  truthy): for every route that specifies a non-empty path together with a matcher, and
  for every route that specifies neither a path nor a matcher, \<open>validateConfig\<close> on a tree
  that contains the route fails with a \<open>ConfigError\<close>.
\<close>

theorem validateConfig_rejects_path_with_matcher_or_neither:
  assumes "devModeEnabled ngDevMode" and "r \<in> set (treeNodes config)"
    and "(\<exists>p m. path r = Some p \<and> p \<noteq> [] \<and> matcher r = Some m) \<or>
         (path r = None \<and> matcher r = None)"
  shows "\<exists>e. validateConfig ngDevMode config parentPath = Inl e"
proof (rule validateConfig_fails_if_node_rejected[OF assms(1,2)])
  from assms(3) show "failedCheck r \<noteq> None"
  proof
    assume "\<exists>p m. path r = Some p \<and> p \<noteq> [] \<and> matcher r = Some m"
    then have "truthy (path r)" "matcher r \<noteq> None" by auto
    then show ?thesis by (rule rej_path_matcher)
  next
    assume "path r = None \<and> matcher r = None"
    then show ?thesis by (simp add: rej_no_path_matcher)
  qed
qed

theorem validateConfig_rejects_path_with_matcher_or_neither_witness:
  "devModeEnabled None \<and>
   pathAndMatcher ''a'' \<in> set (treeNodes [plainRoute, parentOf [pathAndMatcher ''a'']]) \<and>
   validateConfig None [plainRoute, parentOf [pathAndMatcher ''a'']] [] =
     Inl (ConfigError ''p/a'' PathAndMatcher) \<and>
   devModeEnabled (Some True) \<and>
   noPathNoMatcher \<in> set (treeNodes [noPathNoMatcher]) \<and>
   validateConfig (Some True) [noPathNoMatcher] ''root'' =
     Inl (ConfigError ''root/'' NoPathNorMatcher)"
proof -
  have d: "devModeEnabled None" "devModeEnabled (Some True)" by (simp_all add: devModeEnabled_def)
  have m1: "pathAndMatcher ''a'' \<in> set (treeNodes [plainRoute, parentOf [pathAndMatcher ''a'']])"
    by code_simp
  have m2: "noPathNoMatcher \<in> set (treeNodes [noPathNoMatcher])"
    by code_simp
  have b1: "(\<exists>p m. path (pathAndMatcher ''a'') = Some p \<and> p \<noteq> [] \<and>
                matcher (pathAndMatcher ''a'') = Some m) \<or>
            (path (pathAndMatcher ''a'') = None \<and> matcher (pathAndMatcher ''a'') = None)"
    by (simp add: pathAndMatcher_def)
  have b2: "(\<exists>p m. path noPathNoMatcher = Some p \<and> p \<noteq> [] \<and> matcher noPathNoMatcher = Some m) \<or>
            (path noPathNoMatcher = None \<and> matcher noPathNoMatcher = None)"
    by (simp add: noPathNoMatcher_def)
  have v1: "validateConfig None [plainRoute, parentOf [pathAndMatcher ''a'']] [] =
     Inl (ConfigError ''p/a'' PathAndMatcher)"
    by code_simp
  have v2: "validateConfig (Some True) [noPathNoMatcher] ''root'' =
     Inl (ConfigError ''root/'' NoPathNorMatcher)"
    by code_simp
  show ?thesis
    using validateConfig_rejects_path_with_matcher_or_neither[OF d(1) m1 b1, of "[]"] validateConfig_rejects_path_with_matcher_or_neither[OF d(2) m2 b2, of "''root''"] d m1 m2 v1 v2
    by simp
qed

text \<open>
  C6, as stated, fails. With \<^verbatim>\<open>ngDevMode\<close> declared and falsy no check runs. With the checks
  enabled, a redirect whose outlet is set to the empty string (not "primary") and that has
  no component, children or lazy-load descriptor passes: the source tests the outlet for
  truthiness.
\<close>

theorem validateConfig_rejects_named_outlet_without_content_counterexample:
  "outlet (auxRoute ''a'') = Some ''aux'' \<and> ''aux'' \<noteq> PRIMARY_OUTLET \<and>
   component (auxRoute ''a'') = None \<and> children (auxRoute ''a'') = None \<and>
   loadChildren (auxRoute ''a'') = None \<and>
   validateConfig (Some False) [auxRoute ''a''] [] = Inr () \<and>
   outlet emptyOutletRedirect = Some [] \<and> [] \<noteq> PRIMARY_OUTLET \<and>
   component emptyOutletRedirect = None \<and> children emptyOutletRedirect = None \<and>
   loadChildren emptyOutletRedirect = None \<and>
   validateConfig None [emptyOutletRedirect] [] = Inr ()"
  by (simp add: auxRoute_def emptyOutletRedirect_def PRIMARY_OUTLET_def validateNode.simps
      devModeEnabled_def failedCheck_def getFullPath_def)

text \<open>
  C6, amended. When the development-mode checks are enabled: for every route whose outlet
  is a non-empty name other than "primary" and which has no component, no children and no
  lazy-load descriptor, \<open>validateConfig\<close> on a tree that contains the route fails with a
  \<open>ConfigError\<close>.
\<close>

theorem validateConfig_rejects_named_outlet_without_content:
  assumes "devModeEnabled ngDevMode" and "r \<in> set (treeNodes config)"
    and "outlet r = Some name" and "name \<noteq> []" and "name \<noteq> PRIMARY_OUTLET"
    and "component r = None" and "children r = None" and "loadChildren r = None"
  shows "\<exists>e. validateConfig ngDevMode config parentPath = Inl e"
proof (rule validateConfig_fails_if_node_rejected[OF assms(1,2)])
  have "truthy (outlet r)" "outlet r \<noteq> Some PRIMARY_OUTLET"
    using assms(3-5) by simp_all
  then show "failedCheck r \<noteq> None"
    using assms(6-8) by (simp add: rej_named_outlet)
qed

theorem validateConfig_rejects_named_outlet_without_content_witness:
  "devModeEnabled None \<and> auxRoute ''a'' \<in> set (treeNodes [parentOf [plainRoute, auxRoute ''a'']]) \<and>
   outlet (auxRoute ''a'') = Some ''aux'' \<and> component (auxRoute ''a'') = None \<and>
   children (auxRoute ''a'') = None \<and> loadChildren (auxRoute ''a'') = None \<and>
   validateConfig None [parentOf [plainRoute, auxRoute ''a'']] [] =
     Inl (ConfigError ''p/a'' NamedOutletWithoutContent)"
proof -
  have d: "devModeEnabled None" by (simp add: devModeEnabled_def)
  have m: "auxRoute ''a'' \<in> set (treeNodes [parentOf [plainRoute, auxRoute ''a'']])"
    by code_simp
  have h: "outlet (auxRoute ''a'') = Some ''aux''" "''aux'' \<noteq> []" "''aux'' \<noteq> PRIMARY_OUTLET"
    "component (auxRoute ''a'') = None" "children (auxRoute ''a'') = None"
    "loadChildren (auxRoute ''a'') = None"
    by (simp_all add: auxRoute_def PRIMARY_OUTLET_def)
  have v: "validateConfig None [parentOf [plainRoute, auxRoute ''a'']] [] =
     Inl (ConfigError ''p/a'' NamedOutletWithoutContent)"
    by code_simp
  show ?thesis using validateConfig_rejects_named_outlet_without_content[OF d m h, of "[]"] d m h v by simp
qed

text \<open>
  C7, as stated, fails. With \<^verbatim>\<open>ngDevMode\<close> declared and falsy no check runs. With the checks
  enabled, a route whose \<^verbatim>\<open>redirectTo\<close> is set to the empty string passes together with
  children, with a lazy-load descriptor, with a component and with guards: the source tests
  \<^verbatim>\<open>route.redirectTo && ...\<close>, and the empty string is falsy.
\<close>

theorem validateConfig_rejects_redirectTo_combined_counterexample:
  "redirectTo (redirectWith ''b'' None None (Some []) None) = Some ''b'' \<and>
   children (redirectWith ''b'' None None (Some []) None) = Some [] \<and>
   validateConfig (Some False) [redirectWith ''b'' None None (Some []) None] [] = Inr () \<and>
   redirectTo (redirectWith [] None None (Some []) None) = Some [] \<and>
   children (redirectWith [] None None (Some []) None) = Some [] \<and>
   validateConfig None [redirectWith [] None None (Some []) None] [] = Inr () \<and>
   validateConfig None [redirectWith [] None None None (Some (LoadChildren 1))] [] = Inr () \<and>
   validateConfig None [redirectWith [] (Some (Component 1)) None None None] [] = Inr () \<and>
   validateConfig None [redirectWith [] None (Some [Guard 1]) None None] [] = Inr ()"
  by (simp add: redirectWith_def validateNode.simps devModeEnabled_def failedCheck_def
      getFullPath_def)

text \<open>
  C7, amended. When the development-mode checks are enabled: for every route whose
  \<^verbatim>\<open>redirectTo\<close> is a non-empty string and which also has children, or a lazy-load
  descriptor, or a component, or activation guards, \<open>validateConfig\<close> on a tree that contains
  the route fails with a \<open>ConfigError\<close>.
\<close>

theorem validateConfig_rejects_redirectTo_combined:
  assumes "devModeEnabled ngDevMode" and "r \<in> set (treeNodes config)"
    and "redirectTo r = Some target" and "target \<noteq> []"
    and "children r \<noteq> None \<or> loadChildren r \<noteq> None \<or> component r \<noteq> None \<or>
         canActivate r \<noteq> None"
  shows "\<exists>e. validateConfig ngDevMode config parentPath = Inl e"
proof (rule validateConfig_fails_if_node_rejected[OF assms(1,2)])
  have "truthy (redirectTo r)" using assms(3,4) by simp
  then show "failedCheck r \<noteq> None" using assms(5) by (rule rej_redirect)
qed

theorem validateConfig_rejects_redirectTo_combined_witness:
  "devModeEnabled None \<and>
   validateConfig None [redirectWith ''b'' None None (Some []) None] [] =
     Inl (ConfigError ''a'' RedirectToAndChildren) \<and>
   validateConfig None [redirectWith ''b'' None None None (Some (LoadChildren 1))] [] =
     Inl (ConfigError ''a'' RedirectToAndLoadChildren) \<and>
   validateConfig None [redirectWith ''b'' (Some (Component 1)) None None None] [] =
     Inl (ConfigError ''a'' RedirectToAndComponent) \<and>
   validateConfig None [redirectWith ''b'' None (Some [Guard 1]) None None] [] =
     Inl (ConfigError ''a'' RedirectToAndCanActivate)"
proof -
  have d: "devModeEnabled None" by (simp add: devModeEnabled_def)
  have m: "redirectWith ''b'' co ca ch lc \<in> set (treeNodes [redirectWith ''b'' co ca ch lc])"
    for co ca ch lc by (simp add: treeNodes_def allNodes.simps[of "redirectWith ''b'' co ca ch lc"])
  have t: "redirectTo (redirectWith ''b'' co ca ch lc) = Some ''b''" "''b'' \<noteq> []"
    for co ca ch lc by (simp_all add: redirectWith_def)
  have h1: "children (redirectWith ''b'' None None (Some []) None) \<noteq> None \<or>
            loadChildren (redirectWith ''b'' None None (Some []) None) \<noteq> None \<or>
            component (redirectWith ''b'' None None (Some []) None) \<noteq> None \<or>
            canActivate (redirectWith ''b'' None None (Some []) None) \<noteq> None"
    by (simp add: redirectWith_def)
  have h2: "children (redirectWith ''b'' None None None (Some (LoadChildren 1))) \<noteq> None \<or>
            loadChildren (redirectWith ''b'' None None None (Some (LoadChildren 1))) \<noteq> None \<or>
            component (redirectWith ''b'' None None None (Some (LoadChildren 1))) \<noteq> None \<or>
            canActivate (redirectWith ''b'' None None None (Some (LoadChildren 1))) \<noteq> None"
    by (simp add: redirectWith_def)
  have h3: "children (redirectWith ''b'' (Some (Component 1)) None None None) \<noteq> None \<or>
            loadChildren (redirectWith ''b'' (Some (Component 1)) None None None) \<noteq> None \<or>
            component (redirectWith ''b'' (Some (Component 1)) None None None) \<noteq> None \<or>
            canActivate (redirectWith ''b'' (Some (Component 1)) None None None) \<noteq> None"
    by (simp add: redirectWith_def)
  have h4: "children (redirectWith ''b'' None (Some [Guard 1]) None None) \<noteq> None \<or>
            loadChildren (redirectWith ''b'' None (Some [Guard 1]) None None) \<noteq> None \<or>
            component (redirectWith ''b'' None (Some [Guard 1]) None None) \<noteq> None \<or>
            canActivate (redirectWith ''b'' None (Some [Guard 1]) None None) \<noteq> None"
    by (simp add: redirectWith_def)
  have v: "validateConfig None [redirectWith ''b'' None None (Some []) None] [] =
     Inl (ConfigError ''a'' RedirectToAndChildren)"
   "validateConfig None [redirectWith ''b'' None None None (Some (LoadChildren 1))] [] =
     Inl (ConfigError ''a'' RedirectToAndLoadChildren)"
   "validateConfig None [redirectWith ''b'' (Some (Component 1)) None None None] [] =
     Inl (ConfigError ''a'' RedirectToAndComponent)"
   "validateConfig None [redirectWith ''b'' None (Some [Guard 1]) None None] [] =
     Inl (ConfigError ''a'' RedirectToAndCanActivate)"
    by (simp_all add: redirectWith_def validateNode.simps devModeEnabled_def failedCheck_def
      getFullPath_def)
  show ?thesis
    using validateConfig_rejects_redirectTo_combined[OF d m t h1, of "[]"] validateConfig_rejects_redirectTo_combined[OF d m t h2, of "[]"] validateConfig_rejects_redirectTo_combined[OF d m t h3, of "[]"]
      validateConfig_rejects_redirectTo_combined[OF d m t h4, of "[]"] d v
    by simp
qed

text \<open>
  C8, as stated, fails: with \<^verbatim>\<open>ngDevMode\<close> declared and falsy no check runs, and a redirect
  from the empty path without \<^verbatim>\<open>pathMatch\<close> passes.
\<close>

theorem validateConfig_empty_path_redirect_needs_pathMatch_counterexample:
  "path (emptyPathRedirect None) = Some [] \<and> redirectTo (emptyPathRedirect None) = Some ''home'' \<and>
   pathMatch (emptyPathRedirect None) = None \<and>
   validateConfig (Some False) [emptyPathRedirect None] [] = Inr ()"
  by (simp add: emptyPathRedirect_def validateNode.simps devModeEnabled_def)

text \<open>
  C8, amended. When the development-mode checks are enabled, \<open>validateConfig\<close> fails with a
  \<open>ConfigError\<close> on every tree that contains a route with \<^verbatim>\<open>redirectTo\<close> set, the empty path
  and no \<^verbatim>\<open>pathMatch\<close>. A route whose \<^verbatim>\<open>pathMatch\<close> is \<^verbatim>\<open>'full'\<close> never fails the
  path-match check; a failure on that ground always comes from a route of the tree with
  the empty path, a redirect and no \<^verbatim>\<open>pathMatch\<close>; and the redirect from the empty path
  with \<^verbatim>\<open>pathMatch: 'full'\<close> and nothing else set passes validation.
\<close>

theorem validateConfig_empty_path_redirect_needs_pathMatch:
  "(devModeEnabled ngDevMode \<and> r \<in> set (treeNodes config) \<and> path r = Some [] \<and>
    redirectTo r \<noteq> None \<and> pathMatch r = None \<longrightarrow>
      (\<exists>e. validateConfig ngDevMode config parentPath = Inl e)) \<and>
   (pathMatch r = Some Full \<longrightarrow> failedCheck r \<noteq> Some PathMatchMissing) \<and>
   (validateConfig ngDevMode config parentPath = Inl (ConfigError p PathMatchMissing) \<longrightarrow>
      (\<exists>n \<in> set (treeNodes config).
         path n = Some [] \<and> redirectTo n \<noteq> None \<and> pathMatch n = None)) \<and>
   validateConfig ngDevMode
     [Route (Some []) None None None (Some target) None None None (Some Full) lr li si]
     parentPath = Inr ()"
proof (intro conjI impI)
  assume h: "devModeEnabled ngDevMode \<and> r \<in> set (treeNodes config) \<and> path r = Some [] \<and>
    redirectTo r \<noteq> None \<and> pathMatch r = None"
  then have "failedCheck r \<noteq> None" by (simp add: rej_pathMatch)
  then show "\<exists>e. validateConfig ngDevMode config parentPath = Inl e"
    using h validateConfig_fails_if_node_rejected by blast
next
  assume "pathMatch r = Some Full"
  then show "failedCheck r \<noteq> Some PathMatchMissing"
    using pathMatch_origin[of r] by auto
next
  assume "validateConfig ngDevMode config parentPath = Inl (ConfigError p PathMatchMissing)"
  then obtain n where "n \<in> set (treeNodes config)" "failedCheck n = Some PathMatchMissing"
    using validate_error_origin(1) by blast
  then show "\<exists>n \<in> set (treeNodes config).
         path n = Some [] \<and> redirectTo n \<noteq> None \<and> pathMatch n = None"
    using pathMatch_origin by blast
next
  show "validateConfig ngDevMode
     [Route (Some []) None None None (Some target) None None None (Some Full) lr li si]
     parentPath = Inr ()"
    by (simp add: validateNode.simps failedCheck_def)
qed

theorem validateConfig_empty_path_redirect_needs_pathMatch_witness:
  "devModeEnabled None \<and> emptyPathRedirect None \<in> set (treeNodes [emptyPathRedirect None]) \<and>
   validateConfig None [emptyPathRedirect None] [] = Inl (ConfigError [] PathMatchMissing) \<and>
   pathMatch (emptyPathRedirect (Some Full)) = Some Full \<and>
   failedCheck (emptyPathRedirect (Some Full)) = None \<and>
   validateConfig None [emptyPathRedirect (Some Full)] [] = Inr ()"
proof -
  have d: "devModeEnabled None" by (simp add: devModeEnabled_def)
  have m: "emptyPathRedirect None \<in> set (treeNodes [emptyPathRedirect None])" by code_simp
  have h: "path (emptyPathRedirect None) = Some []" "redirectTo (emptyPathRedirect None) \<noteq> None"
    "pathMatch (emptyPathRedirect None) = None" by (simp_all add: emptyPathRedirect_def)
  have f: "pathMatch (emptyPathRedirect (Some Full)) = Some Full"
    by (simp add: emptyPathRedirect_def)
  have v: "validateConfig None [emptyPathRedirect None] [] = Inl (ConfigError [] PathMatchMissing)"
    "failedCheck (emptyPathRedirect (Some Full)) = None"
    "validateConfig None [emptyPathRedirect (Some Full)] [] = Inr ()"
    by code_simp+
  show ?thesis
    using validateConfig_empty_path_redirect_needs_pathMatch[of None "emptyPathRedirect None" "[emptyPathRedirect None]" "[]" "[]"]
      validateConfig_empty_path_redirect_needs_pathMatch[of None "emptyPathRedirect (Some Full)" "[emptyPathRedirect None]" "[]" "[]"]
      d m h f v
    by simp
qed

subsection \<open>Normalisation over the store\<close>

lemma readRoute_append: "readRoute h a = Some ro \<Longrightarrow> readRoute (h @ t) a = Some ro"
  by (auto simp: readRoute_def nth_append split: if_splits)

lemma readArray_append: "readArray h a = Some es \<Longrightarrow> readArray (h @ t) a = Some es"
  by (auto simp: readArray_def nth_append split: if_splits)

lemma readRoute_new [simp]: "readRoute (h @ [RouteObject ro]) (length h) = Some ro"
  by (simp add: readRoute_def)

lemma readArray_new [simp]: "readArray (h @ [ArrayObject es]) (length h) = Some es"
  by (simp add: readArray_def)

lemma represents_append:
  "represents h a r \<Longrightarrow> represents (h @ t) a r"
  "representsAll h x cs \<Longrightarrow> representsAll (h @ t) x cs"
proof (induction rule: represents_representsAll.inducts)
  case (1 h a ro pa ma ou co re ca lc pm li si ch lr)
  then show ?case
    by (auto intro!: represents_representsAll.intros(1) simp: readRoute_append)
next
  case (2 h)
  show ?case by (rule represents_representsAll.intros(2))
next
  case (3 h arr es cs)
  have "list_all2 (represents (h @ t)) es cs"
    using "3.IH" by (rule list_all2_mono) simp
  then show ?case
    using "3.hyps" by (auto intro!: represents_representsAll.intros(3) simp: readArray_append)
qed

lemma represents_prefix: "prefix h h' \<Longrightarrow> represents h a r \<Longrightarrow> represents h' a r"
  by (auto simp: prefix_def represents_append)

lemma representsAll_prefix: "prefix h h' \<Longrightarrow> representsAll h x cs \<Longrightarrow> representsAll h' x cs"
  by (auto simp: prefix_def represents_append)

lemma placeholder_new:
  "placeholderIfNeeded b (h @ [RouteObject ro]) (length h) =
     Some (h @ [RouteObject (if needsPlaceholder b ro
                             then ro\<lparr>o_component := Some EmptyOutletComponent\<rparr> else ro)],
           length h)"
  by (simp add: placeholderIfNeeded_def needsPlaceholder_def)

lemma depth_children:
  "depth (Route pa ma ou co re ca (Some cs) lc pm lr li si) \<le> Suc m \<Longrightarrow> c \<in> set cs \<Longrightarrow> depth c \<le> m"
proof -
  assume d: "depth (Route pa ma ou co re ca (Some cs) lc pm lr li si) \<le> Suc m" and c: "c \<in> set cs"
  have "depth c \<le> foldr max (map depth cs) 0"
    using c by (induction cs) (auto simp: max_def)
  then show ?thesis using d by (simp add: depth.simps)
qed

lemma map_refines:
  assumes IH: "\<And>c h a. c \<in> set cs \<Longrightarrow> represents h a c \<Longrightarrow>
      \<exists>h' a'. standardizeConfigH n h a = Some (h', a') \<and> prefix h h' \<and>
        represents h' a' (standardizeConfig c)"
  shows "list_all2 (represents h) es cs \<Longrightarrow>
     \<exists>h' es'. mapStandardizeConfigH n h es = Some (h', es') \<and> prefix h h' \<and>
       list_all2 (represents h') es' (map standardizeConfig cs)"
  using IH
proof (induction cs arbitrary: es h)
  case Nil
  then show ?case by simp
next
  case (Cons c cs)
  from Cons.prems(1) obtain e es0 where es: "es = e # es0" and e: "represents h e c"
    and rest: "list_all2 (represents h) es0 cs"
    by (auto simp: list_all2_Cons2)
  from Cons.prems(2)[of c h e] e obtain h1 e' where
    s1: "standardizeConfigH n h e = Some (h1, e')" and p1: "prefix h h1"
    and r1: "represents h1 e' (standardizeConfig c)"
    by auto
  have rest1: "list_all2 (represents h1) es0 cs"
    using rest by (rule list_all2_mono) (rule represents_prefix[OF p1])
  from Cons.IH[OF rest1] Cons.prems(2) obtain h2 es' where
    s2: "mapStandardizeConfigH n h1 es0 = Some (h2, es')" and p2: "prefix h1 h2"
    and r2: "list_all2 (represents h2) es' (map standardizeConfig cs)"
    by auto
  have "represents h2 e' (standardizeConfig c)" using r1 p2 by (simp add: represents_prefix)
  moreover have "prefix h h2" using p1 p2 by (rule prefix_order.trans)
  ultimately show ?case using es s1 s2 r2 by simp
qed


lemma standardizeConfigH_refines:
  "depth r \<le> n \<Longrightarrow> represents h a r \<Longrightarrow>
     \<exists>h' a'. standardizeConfigH n h a = Some (h', a') \<and> prefix h h' \<and>
       represents h' a' (standardizeConfig r) \<and> length h \<le> a' \<and> a' < length h' \<and>
       (\<exists>ro co. readRoute h a = Some ro \<and> readRoute h' a' = Some co \<and> sameOtherFields ro co)"
proof (induction r arbitrary: n h a)
  case (Route pa ma ou co re ca ch lc pm lr li si)
  from Route.prems(1) obtain m where n: "n = Suc m" by (cases n) (auto simp: depth.simps)
  from Route.prems(2) obtain ro where ro: "readRoute h a = Some ro"
    and f: "o_path ro = pa" "o_matcher ro = ma" "o_outlet ro = ou" "o_component ro = co"
      "o_redirectTo ro = re" "o_canActivate ro = ca" "o_loadChildren ro = lc"
      "o_pathMatch ro = pm" "o_loadedInjector ro = li" "o_injector ro = si"
    and kids: "representsAll h (o_children ro) ch"
    and loaded: "representsAll h (o_loadedRoutes ro) lr"
    by (auto simp: represents_Route)
  show ?case
  proof (cases ch)
    case None
    then have nokids: "o_children ro = None" using kids by (simp add: representsAll_None)
    let ?c = "if needsPlaceholder False ro
              then ro\<lparr>o_component := Some EmptyOutletComponent\<rparr> else ro"
    let ?h' = "h @ [RouteObject ?c]"
    have run: "standardizeConfigH n h a = Some (?h', length h)"
      using n ro nokids by (simp add: alloc_def placeholder_new)
    have "representsAll ?h' (o_loadedRoutes ro) lr" using loaded by (rule represents_append)
    then have "represents ?h' (length h) (standardizeConfig (Route pa ma ou co re ca ch lc pm lr li si))"
      using None f nokids
      by (auto simp: represents_Route needsPlaceholder_def Let_def representsAll_None)
    moreover have "readRoute ?h' (length h) = Some ?c" by (rule readRoute_new)
    moreover have "sameOtherFields ro ?c" by (simp add: sameOtherFields_def)
    ultimately show ?thesis using run ro by auto
  next
    case (Some cs)
    then obtain arr es where arr: "o_children ro = Some arr" and es: "readArray h arr = Some es"
      and rel: "list_all2 (represents h) es cs"
      using kids by (auto simp: representsAll_Some)
    have IH: "\<And>c h a. c \<in> set cs \<Longrightarrow> represents h a c \<Longrightarrow>
      \<exists>h' a'. standardizeConfigH m h a = Some (h', a') \<and> prefix h h' \<and>
        represents h' a' (standardizeConfig c)"
    proof -
      fix c h a assume c: "c \<in> set cs" and r: "represents h a c"
      have "depth c \<le> m" using Route.prems(1) c unfolding n Some by (rule depth_children)
      then show "\<exists>h' a'. standardizeConfigH m h a = Some (h', a') \<and> prefix h h' \<and>
        represents h' a' (standardizeConfig c)"
        using Route.IH(1)[of cs c m h a] c r Some by auto
    qed
    from map_refines[OF IH rel] obtain h1 es' where
      m1: "mapStandardizeConfigH m h es = Some (h1, es')" and p1: "prefix h h1"
      and r1: "list_all2 (represents h1) es' (map standardizeConfig cs)"
      by blast
    let ?h2 = "h1 @ [ArrayObject es']"
    have ro2: "readRoute ?h2 a = Some ro"
      using ro p1 by (auto simp: prefix_def readRoute_append)
    let ?copy = "ro\<lparr>o_children := Some (length h1)\<rparr>"
    let ?c = "if needsPlaceholder True ?copy
              then ?copy\<lparr>o_component := Some EmptyOutletComponent\<rparr> else ?copy"
    define h' where "h' = ?h2 @ [RouteObject ?c]"
    have "placeholderIfNeeded True (?h2 @ [RouteObject ?copy]) (length ?h2) = Some (h', length ?h2)"
      unfolding h'_def by (rule placeholder_new)
    then have run: "standardizeConfigH n h a = Some (h', length ?h2)"
      using n ro arr es m1 ro2 by (simp add: alloc_def)
    have pre: "prefix h h'" using p1 by (auto simp: prefix_def h'_def)
    have new: "readRoute h' (length ?h2) = Some ?c"
      unfolding h'_def by (rule readRoute_new)
    have "representsAll h' (o_loadedRoutes ro) lr" using loaded pre by (simp add: representsAll_prefix)
    moreover have "readArray h' (length h1) = Some es'"
      unfolding h'_def by (rule readArray_append) (rule readArray_new)
    moreover have "list_all2 (represents h') es' (map standardizeConfig cs)"
      unfolding h'_def using r1 by (rule list_all2_mono) (simp add: represents_append)
    ultimately have "represents h' (length ?h2)
        (standardizeConfig (Route pa ma ou co re ca ch lc pm lr li si))"
      using Some f new
      by (auto simp: represents_Route needsPlaceholder_def Let_def representsAll_Some)
    moreover have "sameOtherFields ro ?c" by (simp add: sameOtherFields_def)
    moreover have "length h \<le> length ?h2" using p1 by (auto simp: prefix_def)
    moreover have "length ?h2 < length h'" by (simp add: h'_def)
    ultimately show ?thesis using run pre ro new by blast
  qed
qed


lemma fuel_mono:
  "standardizeConfigH n h a = Some x \<Longrightarrow> n \<le> m \<Longrightarrow> standardizeConfigH m h a = Some x"
  "mapStandardizeConfigH n h es = Some y \<Longrightarrow> n \<le> m \<Longrightarrow> mapStandardizeConfigH m h es = Some y"
proof (induction n h a and n h es arbitrary: x m and y m rule: standardizeConfigH_mapStandardizeConfigH.induct)
  case (1 h r)
  then show ?case by simp
next
  case (2 fuel h r)
  from "2.prems"(2) obtain m' where m: "m = Suc m'" and le: "fuel \<le> m'" by (cases m) auto
  show ?case
  proof (cases "readRoute h r")
    case None
    then show ?thesis using "2.prems"(1) by simp
  next
    case (Some ro)
    show ?thesis
    proof (cases "o_children ro")
      case None
      then show ?thesis using "2.prems"(1) Some m by simp
    next
      case arr: (Some arr)
      show ?thesis
      proof (cases "readArray h arr")
        case None
        then show ?thesis using "2.prems"(1) Some arr by simp
      next
        case es: (Some es)
        from "2.prems"(1) Some arr es obtain y where
          y: "mapStandardizeConfigH fuel h es = Some y"
          by (cases "mapStandardizeConfigH fuel h es") auto
        have "mapStandardizeConfigH m' h es = Some y"
          using "2.IH"[OF Some arr es y le] .
        then show ?thesis using "2.prems"(1) Some arr es y m by simp
      qed
    qed
  qed
next
  case (3 fuel h)
  then show ?case by simp
next
  case (4 fuel h e es)
  from "4.prems"(1) obtain h1 e' where
    s: "standardizeConfigH fuel h e = Some (h1, e')"
    by (cases "standardizeConfigH fuel h e") auto
  from "4.prems"(1) s obtain z where
    t: "mapStandardizeConfigH fuel h1 es = Some z"
    by (cases "mapStandardizeConfigH fuel h1 es") auto
  have "standardizeConfigH m h e = Some (h1, e')" using "4.IH"(1)[OF s "4.prems"(2)] .
  moreover have "mapStandardizeConfigH m h1 es = Some z"
    using "4.IH"(2)[OF s _ t "4.prems"(2)] by simp
  ultimately show ?case using "4.prems"(1) s t by simp
qed

lemma auxParentHeap_represents: "represents auxParentHeap 2 auxParent"
  by (simp add: auxParentHeap_def auxParent_def plainRoute_def auxParentObject_def
      plainObject_def represents_Route representsAll_Some representsAll_None readRoute_def
      readArray_def)

lemma auxParentHeap_run:
  "standardizeConfigH (depth auxParent) auxParentHeap 2 =
     Some (auxParentHeap @
           [RouteObject plainObject, ArrayObject [3],
            RouteObject ((auxParentObject 4)\<lparr>o_component := Some EmptyOutletComponent\<rparr>)], 5)"
  by code_simp

text \<open>
  C10. On a store \<open>h\<close> in which \<open>r\<close> is the address of a route tree \<open>t\<close>, \<open>standardizeConfigH\<close>
  returns a store \<open>h'\<close> and an address \<open>c\<close> such that: \<open>c\<close> is not an address of \<open>h\<close> (the
  record is fresh); every cell of \<open>h\<close> is unchanged in \<open>h'\<close>, so the object at \<open>r\<close> is the
  one it was (no mutation of \<open>r\<close>, nor of anything else that existed); the object at \<open>c\<close>
  agrees with the object at \<open>r\<close> on every attribute other than \<^verbatim>\<open>component\<close> and
  \<^verbatim>\<open>children\<close>; and the object at \<open>c\<close> is the tree \<open>standardizeConfig t\<close>. On the values,
  every attribute of \<open>standardizeConfig t\<close> other than \<open>component\<close> and \<open>children\<close> is that of \<open>t\<close>.
\<close>

theorem standardizeConfig_fresh_copy_same_other_fields:
  assumes "represents h r t"
  shows "(\<exists>h' c ro co.
            (\<forall>fuel \<ge> depth t. standardizeConfigH fuel h r = Some (h', c)) \<and>
            length h \<le> c \<and> c < length h' \<and> take (length h) h' = h \<and>
            readRoute h r = Some ro \<and> readRoute h' r = Some ro \<and>
            readRoute h' c = Some co \<and> sameOtherFields ro co \<and>
            represents h' c (standardizeConfig t)) \<and>
         path (standardizeConfig t) = path t \<and> matcher (standardizeConfig t) = matcher t \<and>
         outlet (standardizeConfig t) = outlet t \<and>
         redirectTo (standardizeConfig t) = redirectTo t \<and>
         canActivate (standardizeConfig t) = canActivate t \<and>
         loadChildren (standardizeConfig t) = loadChildren t \<and>
         pathMatch (standardizeConfig t) = pathMatch t \<and>
         u_loadedRoutes (standardizeConfig t) = u_loadedRoutes t \<and>
         u_loadedInjector (standardizeConfig t) = u_loadedInjector t \<and>
         u_injector (standardizeConfig t) = u_injector t"
proof -
  from standardizeConfigH_refines[OF order_refl assms] obtain h' c ro co where
    run: "standardizeConfigH (depth t) h r = Some (h', c)" and pre: "prefix h h'"
    and rep: "represents h' c (standardizeConfig t)" and fresh: "length h \<le> c" "c < length h'"
    and ro: "readRoute h r = Some ro" and co: "readRoute h' c = Some co"
    and same: "sameOtherFields ro co"
    by blast
  have all: "\<forall>fuel \<ge> depth t. standardizeConfigH fuel h r = Some (h', c)"
    using fuel_mono(1)[OF run] by blast
  have old: "take (length h) h' = h" using pre by (auto simp: prefix_def)
  have ro': "readRoute h' r = Some ro" using ro pre by (auto simp: prefix_def readRoute_append)
  have heap: "\<exists>h' c ro co.
            (\<forall>fuel \<ge> depth t. standardizeConfigH fuel h r = Some (h', c)) \<and>
            length h \<le> c \<and> c < length h' \<and> take (length h) h' = h \<and>
            readRoute h r = Some ro \<and> readRoute h' r = Some ro \<and>
            readRoute h' c = Some co \<and> sameOtherFields ro co \<and>
            represents h' c (standardizeConfig t)"
    using all fresh old ro ro' co same rep by blast
  have pure: "path (standardizeConfig t) = path t \<and> matcher (standardizeConfig t) = matcher t \<and>
         outlet (standardizeConfig t) = outlet t \<and>
         redirectTo (standardizeConfig t) = redirectTo t \<and>
         canActivate (standardizeConfig t) = canActivate t \<and>
         loadChildren (standardizeConfig t) = loadChildren t \<and>
         pathMatch (standardizeConfig t) = pathMatch t \<and>
         u_loadedRoutes (standardizeConfig t) = u_loadedRoutes t \<and>
         u_loadedInjector (standardizeConfig t) = u_loadedInjector t \<and>
         u_injector (standardizeConfig t) = u_injector t"
    by (cases t) (simp add: Let_def split: option.splits)
  from heap pure show ?thesis by (rule conjI)
qed


theorem standardizeConfig_fresh_copy_same_other_fields_witness:
  "represents auxParentHeap 2 auxParent \<and>
   standardizeConfigH (depth auxParent) auxParentHeap 2 =
     Some (auxParentHeap @
           [RouteObject plainObject, ArrayObject [3],
            RouteObject ((auxParentObject 4)\<lparr>o_component := Some EmptyOutletComponent\<rparr>)], 5) \<and>
   readRoute (auxParentHeap @
           [RouteObject plainObject, ArrayObject [3],
            RouteObject ((auxParentObject 4)\<lparr>o_component := Some EmptyOutletComponent\<rparr>)]) 2 =
     Some (auxParentObject 1) \<and>
   path (standardizeConfig auxParent) = Some ''a''"
proof -
  let ?h' = "auxParentHeap @
           [RouteObject plainObject, ArrayObject [3],
            RouteObject ((auxParentObject 4)\<lparr>o_component := Some EmptyOutletComponent\<rparr>)]"
  have rep: "represents auxParentHeap 2 auxParent" by (rule auxParentHeap_represents)
  from standardizeConfig_fresh_copy_same_other_fields[OF rep] obtain h' c ro where
    run: "\<forall>fuel \<ge> depth auxParent. standardizeConfigH fuel auxParentHeap 2 = Some (h', c)"
    and ro: "readRoute auxParentHeap 2 = Some ro" "readRoute h' 2 = Some ro"
    and p: "path (standardizeConfig auxParent) = path auxParent"
    by blast
  from run have "standardizeConfigH (depth auxParent) auxParentHeap 2 = Some (h', c)" by blast
  then have h': "h' = ?h'" and c: "c = 5" using auxParentHeap_run by simp_all
  have "ro = auxParentObject 1" using ro(1) by (simp add: auxParentHeap_def readRoute_def)
  then have "readRoute ?h' 2 = Some (auxParentObject 1)" using ro(2) h' by simp
  moreover have "path (standardizeConfig auxParent) = Some ''a''"
    using p by (simp add: auxParent_def)
  ultimately show ?thesis using rep auxParentHeap_run by simp
qed


subsection \<open>Totality\<close>

text \<open>
  C9. \<open>standardizeConfig\<close>, \<open>getOutlet\<close>, \<open>sortByMatchingOutlets\<close> and
  \<open>getClosestRouteInjector\<close> have no failing branch: they are total functions with a plain
  result, as the source has no \<^verbatim>\<open>throw\<close> and guards every access through a value that may
  be absent. An unset outlet resolves to "primary"; \<open>sortByMatchingOutlets\<close> returns a list
  as long as its input; an absent snapshot resolves to no injector, and so does a snapshot
  without a static injector none of whose ancestors carries an injector. Over the store,
  where the recursion follows references, \<open>standardizeConfigH\<close> returns a result on every
  address that holds a route tree, the same result for every amount of fuel from the depth
  of the tree on.
\<close>

theorem other_functions_total_with_defaults:
  "(outlet r = None \<longrightarrow> getOutlet r = PRIMARY_OUTLET) \<and>
   length (sortByMatchingOutlets routes outletName) = length routes \<and>
   getClosestRouteInjector None = None \<and>
   (staticInjector s = None \<and> (\<forall>x \<in> set (ancestors s). \<not> carriesInjector x) \<longrightarrow>
      getClosestRouteInjector (Some s) = None) \<and>
   (represents h a t \<longrightarrow>
      (\<exists>result. \<forall>fuel \<ge> depth t. standardizeConfigH fuel h a = Some result))"
proof (intro conjI impI)
  assume "outlet r = None"
  then show "getOutlet r = PRIMARY_OUTLET" by (simp add: getOutlet_def)
next
  have "length (filter (\<lambda>r. getOutlet r = outletName) routes) +
        length (filter (\<lambda>r. getOutlet r \<noteq> outletName) routes) = length routes"
    by (rule sum_length_filter_compl)
  then show "length (sortByMatchingOutlets routes outletName) = length routes"
    by (simp add: sortByMatchingOutlets_def)
next
  show "getClosestRouteInjector None = None" by simp
next
  assume "staticInjector s = None \<and> (\<forall>x \<in> set (ancestors s). \<not> carriesInjector x)"
  then show "getClosestRouteInjector (Some s) = None"
    using closestFromParents_none[of s] by (simp add: staticInjector_def)
next
  assume "represents h a t"
  from standardizeConfigH_refines[OF order_refl this] obtain h' c where
    "standardizeConfigH (depth t) h a = Some (h', c)" by blast
  then have "\<forall>fuel \<ge> depth t. standardizeConfigH fuel h a = Some (h', c)"
    using fuel_mono(1) by blast
  then show "\<exists>result. \<forall>fuel \<ge> depth t. standardizeConfigH fuel h a = Some result" ..
qed


theorem other_functions_total_with_defaults_witness:
  "outlet route0 = None \<and> getOutlet route0 = ''primary'' \<and>
   staticInjector orphanSnapshot = None \<and>
   getClosestRouteInjector (Some orphanSnapshot) = None \<and>
   represents auxParentHeap 2 auxParent \<and>
   standardizeConfigH 2 auxParentHeap 2 \<noteq> None \<and> standardizeConfigH 7 auxParentHeap 2 \<noteq> None"
proof -
  have o: "outlet route0 = None" by (simp add: route0_def)
  have s: "staticInjector orphanSnapshot = None \<and>
           (\<forall>x \<in> set (ancestors orphanSnapshot). \<not> carriesInjector x)"
    by (simp add: orphanSnapshot_def staticInjector_def carriesInjector_def plainRoute_def)
  have rep: "represents auxParentHeap 2 auxParent" by (rule auxParentHeap_represents)
  have d: "depth auxParent = 2" by code_simp
  note inst = other_functions_total_with_defaults[of route0 "[]" "[]" orphanSnapshot auxParentHeap 2 auxParent]
  from inst o have "getOutlet route0 = PRIMARY_OUTLET" by blast
  moreover from inst s have "getClosestRouteInjector (Some orphanSnapshot) = None" by blast
  moreover from inst rep obtain result where
    "\<forall>fuel \<ge> depth auxParent. standardizeConfigH fuel auxParentHeap 2 = Some result" by blast
  then have "standardizeConfigH 2 auxParentHeap 2 \<noteq> None \<and>
    standardizeConfigH 7 auxParentHeap 2 \<noteq> None" using d by simp
  ultimately show ?thesis using o s rep by (simp add: PRIMARY_OUTLET_def)
qed

end
